theory Spec2Isabelle
  imports Main
begin

section \<open>The stdio-to-HTTP bridge of dev-utils/wrapper.py\<close>

text \<open>
  The program reads its standard input line by line, posts every non-blank line to one
  HTTP endpoint, copies the body of a 200 reply to standard output and writes everything
  else it has to say to standard error. The embedding below follows the script statement
  by statement. What the script does to the outside world is recorded as a list of
  events, in the order in which the statements run; what the outside world does to the
  script (the lines that arrive, the replies of the server, an interrupt or another
  exception) is a parameter.
\<close>

subsection \<open>Python strings\<close>

text \<open>
  A Python \<open>str\<close> is a sequence of Unicode code points: slicing and \<open>strip\<close> count
  code points, not bytes. A string is therefore a list of code point numbers, and
  \<open>lit\<close> embeds the ASCII literals of the script.
\<close>

type_synonym pystr = "nat list"

definition lit :: "string \<Rightarrow> pystr" where
  "lit s = map of_char s"

definition nl :: pystr where
  "nl = [10]"

text \<open>
  \<open>str.strip()\<close> without argument removes the characters for which \<open>str.isspace\<close>
  holds: U+0009..U+000D, U+001C..U+0020, U+0085, U+00A0, U+1680, U+2000..U+200A, U+2028,
  U+2029, U+202F, U+205F and U+3000.
\<close>

definition isspace :: "nat \<Rightarrow> bool" where
  "isspace c \<longleftrightarrow>
     (9 \<le> c \<and> c \<le> 13) \<or> (28 \<le> c \<and> c \<le> 32) \<or> c = 133 \<or> c = 160 \<or> c = 5760 \<or>
     (8192 \<le> c \<and> c \<le> 8202) \<or> c = 8232 \<or> c = 8233 \<or> c = 8239 \<or> c = 8287 \<or> c = 12288"

definition strip :: "pystr \<Rightarrow> pystr" where
  "strip s = rev (dropWhile isspace (rev (dropWhile isspace s)))"

text \<open>
  An f-string renders an \<open>int\<close> in decimal, with a minus sign when it is negative.
\<close>

fun digits :: "nat \<Rightarrow> pystr" where
  "digits n = (if n < 10 then [48 + n] else digits (n div 10) @ [48 + n mod 10])"

declare digits.simps [simp del]

definition str_int :: "int \<Rightarrow> pystr" where
  "str_int i = (if i < 0 then 45 # digits (nat (- i)) else digits (nat i))"

subsection \<open>The outside world\<close>

text \<open>
  \<open>requests.post(url, data=..., headers=..., timeout=...)\<close> sends one request. The
  record holds what the call is given; the method is the one the function name fixes.
\<close>

record request =
  meth :: pystr
  url :: pystr
  data :: pystr
  headers :: "(pystr \<times> pystr) list"
  timeout :: nat

text \<open>
  The exceptions a run can meet: the two classes the script names, and any other class,
  which no handler of the script catches (a \<open>UnicodeEncodeError\<close> of \<open>requests.post\<close>
  for a payload that cannot be encoded, a \<open>UnicodeDecodeError\<close> while reading the
  input). A \<open>RequestException\<close> carries \<open>str(e)\<close>, the only thing the script reads from
  it; an exception of another class carries its name.
\<close>

datatype exc = RequestException pystr | KeyboardInterrupt | OtherException pystr

text \<open>
  A call of \<open>requests.post\<close> returns a response, of which the script reads
  \<open>status_code\<close> and \<open>text\<close>, or raises. The downstream service is a parameter: it
  gives the outcome of the \<open>k\<close>-th call (counted from 0) for the request sent.
\<close>

datatype outcome = Response int pystr | Raise exc

type_synonym downstream = "nat \<Rightarrow> request \<Rightarrow> outcome"

text \<open>
  Iterating over \<open>sys.stdin\<close> yields the next line, terminator included, or blocks;
  an interrupt can arrive while it blocks. The input is the list of what the successive
  reads give, and its end is the end of the stream. A read can also fail with an
  exception of a class the script does not name. Exceptions arise where the script
  calls out and waits, at the read of a line and in \<open>requests.post\<close>; the writes to the
  two output streams are taken to succeed.
\<close>

datatype read = Line pystr | Interrupted | Read_error pystr

datatype event =
    Stderr_write pystr
  | Stderr_flush
  | Stdout_write pystr
  | Stdout_flush
  | Http_request request
  | Http_reply outcome

subsection \<open>The script\<close>

definition HTTP_SERVER_URL :: pystr where
  "HTTP_SERVER_URL = lit ''http://localhost:9000/mcp/v1/chinook/''"

definition log :: "pystr \<Rightarrow> event list" where
  "log message = [Stderr_write (lit ''BRIDGE-LOG: '' @ message @ nl), Stderr_flush]"

definition requests_post ::
  "downstream \<Rightarrow> nat \<Rightarrow> pystr \<Rightarrow> pystr \<Rightarrow> (pystr \<times> pystr) list \<Rightarrow> nat \<Rightarrow> event list \<times> outcome" where
  "requests_post d k u dat hs t =
     (let req = \<lparr>meth = lit ''POST'', url = u, data = dat, headers = hs, timeout = t\<rparr>
      in ([Http_request req, Http_reply (d k req)], d k req))"

text \<open>
  The body of the \<open>for\<close> loop, for one line. It returns the events of this iteration,
  the exception that leaves the iteration (the inner \<open>try\<close> catches
  \<open>RequestException\<close> only, so every other exception of the call leaves it), and the
  number of requests sent so far.
\<close>

definition loop_body :: "downstream \<Rightarrow> nat \<Rightarrow> pystr \<Rightarrow> event list \<times> exc option \<times> nat" where
  "loop_body d k line =
     (if strip line = [] then ([], None, k)
      else
        let payload = strip line;
            e1 = log (lit ''Received Request: '' @ take 100 payload @ lit ''...'');
            (e2, r) = requests_post d k HTTP_SERVER_URL payload
                        [(lit ''Content-Type'', lit ''application/json'')] 30
        in case r of
             Response status_code text \<Rightarrow>
               if status_code = 200
               then (e1 @ e2 @ [Stdout_write (text @ nl), Stdout_flush], None, Suc k)
               else (e1 @ e2 @
                       log (lit ''Server Error: '' @ str_int status_code @ lit '' - '' @ text),
                     None, Suc k)
           | Raise (RequestException e) \<Rightarrow>
               (e1 @ e2 @ log (lit ''HTTP Connection Error: '' @ e), None, Suc k)
           | Raise KeyboardInterrupt \<Rightarrow> (e1 @ e2, Some KeyboardInterrupt, Suc k)
           | Raise (OtherException c) \<Rightarrow> (e1 @ e2, Some (OtherException c), Suc k))"

text \<open>
  The \<open>for\<close> loop: it ends when the input does, or when an exception leaves it.
\<close>

fun loop :: "downstream \<Rightarrow> nat \<Rightarrow> read list \<Rightarrow> event list \<times> exc option" where
  "loop d k [] = ([], None)"
| "loop d k (Interrupted # rest) = ([], Some KeyboardInterrupt)"
| "loop d k (Read_error c # rest) = ([], Some (OtherException c))"
| "loop d k (Line line # rest) =
     (case loop_body d k line of
        (es, Some e, k') \<Rightarrow> (es, Some e)
      | (es, None, k') \<Rightarrow> (case loop d k' rest of (es', r) \<Rightarrow> (es @ es', r)))"

text \<open>
  \<open>main\<close>: the start-up message, the loop inside \<open>try\<close>, and the handler of
  \<open>KeyboardInterrupt\<close>, the only class the outer \<open>try\<close> catches. The result is the
  events and the exception that leaves \<open>main\<close>, if any.
\<close>

definition main :: "downstream \<Rightarrow> read list \<Rightarrow> event list \<times> exc option" where
  "main d stdin =
     (let e0 = log (lit ''Starting MCP Stdio-to-HTTP Bridge...'')
      in case loop d 0 stdin of
           (es, Some KeyboardInterrupt) \<Rightarrow> (e0 @ es @ log (lit ''Bridge shutting down.''), None)
         | (es, r) \<Rightarrow> (e0 @ es, r))"

text \<open>
  The script run as a program: the interpreter ends with status 0 when \<open>main\<close>
  returns, and with status 1 when an exception leaves it. The events are those of the
  script; the traceback the interpreter prints for such an exception is not among them.
\<close>

definition script :: "downstream \<Rightarrow> read list \<Rightarrow> event list \<times> int" where
  "script d stdin = (case main d stdin of (es, None) \<Rightarrow> (es, 0) | (es, Some e) \<Rightarrow> (es, 1))"

subsection \<open>Reading a run\<close>

fun stdout_of :: "event list \<Rightarrow> pystr list" where
  "stdout_of [] = []"
| "stdout_of (Stdout_write s # es) = s # stdout_of es"
| "stdout_of (e # es) = stdout_of es"

fun stderr_of :: "event list \<Rightarrow> pystr list" where
  "stderr_of [] = []"
| "stderr_of (Stderr_write s # es) = s # stderr_of es"
| "stderr_of (e # es) = stderr_of es"

fun requests_of :: "event list \<Rightarrow> request list" where
  "requests_of [] = []"
| "requests_of (Http_request r # es) = r # requests_of es"
| "requests_of (e # es) = requests_of es"

fun replies_of :: "event list \<Rightarrow> outcome list" where
  "replies_of [] = []"
| "replies_of (Http_reply r # es) = r # replies_of es"
| "replies_of (e # es) = replies_of es"

fun is_http :: "event \<Rightarrow> bool" where
  "is_http (Http_request r) = True"
| "is_http (Http_reply out) = True"
| "is_http e = False"

fun on_stdout :: "event \<Rightarrow> bool" where
  "on_stdout (Stdout_write s) = True"
| "on_stdout Stdout_flush = True"
| "on_stdout e = False"

text \<open>
  The request that \<open>loop_body\<close> hands to \<open>requests_post\<close> for a payload: the
  arguments written at the call in \<open>main\<close>.
\<close>

definition bridge_request :: "pystr \<Rightarrow> request" where
  "bridge_request payload =
     \<lparr>meth = lit ''POST'', url = HTTP_SERVER_URL, data = payload,
      headers = [(lit ''Content-Type'', lit ''application/json'')], timeout = 30\<rparr>"

subsection \<open>What the specification expects of a run\<close>

text \<open>
  The specification speaks of non-blank lines, of one exchange for each of them, in the
  order of the input, and of the bodies of the exchanges answered with status 200. These
  definitions follow its words; they are compared with \<open>main\<close> below.
\<close>

definition blank :: "pystr \<Rightarrow> bool" where
  "blank line \<longleftrightarrow> (\<forall>c\<in>set line. isspace c)"

definition payloads :: "pystr list \<Rightarrow> pystr list" where
  "payloads ls = map strip (filter (\<lambda>l. \<not> blank l) ls)"

definition exchanges_from :: "downstream \<Rightarrow> nat \<Rightarrow> pystr list \<Rightarrow> (request \<times> outcome) list" where
  "exchanges_from d k ps =
     map (\<lambda>(i, p). (bridge_request p, d i (bridge_request p))) (enumerate k ps)"


fun ok_body :: "outcome \<Rightarrow> pystr list" where
  "ok_body (Response status_code text) = (if status_code = 200 then [text @ nl] else [])"
| "ok_body (Raise e) = []"



text \<open>
  The exception with which an outcome leaves the loop, if it does: a response and a
  \<open>RequestException\<close> are dealt with inside the iteration, every other exception leaves
  it.
\<close>

fun escapes :: "outcome \<Rightarrow> exc option" where
  "escapes (Response status_code text) = None"
| "escapes (Raise (RequestException e)) = None"
| "escapes (Raise KeyboardInterrupt) = Some KeyboardInterrupt"
| "escapes (Raise (OtherException c)) = Some (OtherException c)"


subsection \<open>Example services\<close>

text \<open>
  A service that gives the same outcome to every request, and one that gives the
  outcomes of a list in turn and a fixed outcome once the list is used up.
\<close>

definition answers :: "outcome \<Rightarrow> downstream" where
  "answers out k r = out"

definition scripted :: "outcome list \<Rightarrow> outcome \<Rightarrow> downstream" where
  "scripted outs rest k r = (if k < length outs then outs ! k else rest)"



section \<open>Properties\<close>

subsection \<open>Reading a run built from parts\<close>

lemma stdout_of_append [simp]: "stdout_of (xs @ ys) = stdout_of xs @ stdout_of ys"
  by (induction xs rule: stdout_of.induct) simp_all

lemma stderr_of_append [simp]: "stderr_of (xs @ ys) = stderr_of xs @ stderr_of ys"
  by (induction xs rule: stderr_of.induct) simp_all

lemma requests_of_append [simp]: "requests_of (xs @ ys) = requests_of xs @ requests_of ys"
  by (induction xs rule: requests_of.induct) simp_all

lemma replies_of_append [simp]: "replies_of (xs @ ys) = replies_of xs @ replies_of ys"
  by (induction xs rule: replies_of.induct) simp_all

lemma log_projections [simp]:
  "stdout_of (log m) = []"
  "stderr_of (log m) = [lit ''BRIDGE-LOG: '' @ m @ nl]"
  "requests_of (log m) = []"
  "replies_of (log m) = []"
  "filter is_http (log m) = []"
  "filter on_stdout (log m) = []"
  by (simp_all add: log_def)

subsection \<open>Blank lines\<close>

lemma all_dropWhile_iff: "(\<forall>x\<in>set (dropWhile P s). P x) \<longleftrightarrow> (\<forall>x\<in>set s. P x)"
  by (induction s) auto

lemma strip_Nil_iff: "strip s = [] \<longleftrightarrow> blank s"
  by (simp add: strip_def blank_def all_dropWhile_iff)

subsection \<open>One iteration of the loop, case by case\<close>

lemma requests_post_eq:
  "requests_post d k HTTP_SERVER_URL p [(lit ''Content-Type'', lit ''application/json'')] 30 =
     ([Http_request (bridge_request p), Http_reply (d k (bridge_request p))],
      d k (bridge_request p))"
  by (simp add: requests_post_def bridge_request_def Let_def)

lemma loop_body_blank: "strip line = [] \<Longrightarrow> loop_body d k line = ([], None, k)"
  by (simp add: loop_body_def)

lemma loop_body_200:
  "strip line \<noteq> [] \<Longrightarrow> d k (bridge_request (strip line)) = Response 200 B \<Longrightarrow>
   loop_body d k line =
     (log (lit ''Received Request: '' @ take 100 (strip line) @ lit ''...'') @
      [Http_request (bridge_request (strip line)), Http_reply (Response 200 B),
       Stdout_write (B @ nl), Stdout_flush], None, Suc k)"
  by (simp add: loop_body_def requests_post_eq Let_def)

lemma loop_body_status:
  "strip line \<noteq> [] \<Longrightarrow> d k (bridge_request (strip line)) = Response s B \<Longrightarrow> s \<noteq> 200 \<Longrightarrow>
   loop_body d k line =
     (log (lit ''Received Request: '' @ take 100 (strip line) @ lit ''...'') @
      [Http_request (bridge_request (strip line)), Http_reply (Response s B)] @
      log (lit ''Server Error: '' @ str_int s @ lit '' - '' @ B), None, Suc k)"
  by (simp add: loop_body_def requests_post_eq Let_def)

lemma loop_body_transport:
  "strip line \<noteq> [] \<Longrightarrow> d k (bridge_request (strip line)) = Raise (RequestException e) \<Longrightarrow>
   loop_body d k line =
     (log (lit ''Received Request: '' @ take 100 (strip line) @ lit ''...'') @
      [Http_request (bridge_request (strip line)), Http_reply (Raise (RequestException e))] @
      log (lit ''HTTP Connection Error: '' @ e), None, Suc k)"
  by (simp add: loop_body_def requests_post_eq Let_def)

lemma loop_body_leaves:
  assumes "strip line \<noteq> []" and "escapes (d k (bridge_request (strip line))) \<noteq> None"
  shows "loop_body d k line =
     (log (lit ''Received Request: '' @ take 100 (strip line) @ lit ''...'') @
      [Http_request (bridge_request (strip line)),
       Http_reply (d k (bridge_request (strip line)))],
      escapes (d k (bridge_request (strip line))), Suc k)"
proof (cases "d k (bridge_request (strip line))")
  case (Response s B)
  with assms(2) show ?thesis by simp
next
  case (Raise x)
  with assms show ?thesis
    by (cases x) (simp_all add: loop_body_def requests_post_eq Let_def)
qed

lemma loop_body_cases:
  obtains (blank) "strip line = []"
  | (ok) B where "strip line \<noteq> []" "d k (bridge_request (strip line)) = Response 200 B"
  | (status) s B where "strip line \<noteq> []" "d k (bridge_request (strip line)) = Response s B"
      "s \<noteq> 200"
  | (transport) e where "strip line \<noteq> []"
      "d k (bridge_request (strip line)) = Raise (RequestException e)"
  | (leaves) "strip line \<noteq> []" "escapes (d k (bridge_request (strip line))) \<noteq> None"
proof (cases "strip line = []")
  case True
  then show ?thesis by (rule blank)
next
  case False
  show ?thesis
  proof (cases "d k (bridge_request (strip line))")
    case (Response s B)
    then show ?thesis using False ok status by (cases "s = 200") auto
  next
    case (Raise x)
    then show ?thesis using False transport leaves by (cases x) auto
  qed
qed

subsection \<open>The loop, one line further\<close>

lemma loop_Line_continue:
  "loop_body d k L = (es, None, k') \<Longrightarrow>
   loop d k (Line L # rest) = (es @ fst (loop d k' rest), snd (loop d k' rest))"
  by (simp add: case_prod_beta)

lemma escapes_ok_body: "escapes out \<noteq> None \<Longrightarrow> ok_body out = []"
  by (cases out rule: escapes.cases) simp_all

lemma loop_body_nonblank:
  assumes "strip L \<noteq> []"
  shows "\<exists>es. loop_body d k L = (es, escapes (d k (bridge_request (strip L))), Suc k) \<and>
         filter is_http es =
           [Http_request (bridge_request (strip L)), Http_reply (d k (bridge_request (strip L)))] \<and>
         stdout_of es = ok_body (d k (bridge_request (strip L))) \<and>
         requests_of es = [bridge_request (strip L)] \<and>
         replies_of es = [d k (bridge_request (strip L))]"
proof (cases rule: loop_body_cases [where line = L and d = d and k = k])
  case blank
  with assms show ?thesis by simp
next
  case (ok B)
  then show ?thesis by (simp add: loop_body_200)
next
  case (status s B)
  then show ?thesis by (simp add: loop_body_status)
next
  case (transport e)
  then show ?thesis by (simp add: loop_body_transport)
next
  case leaves
  then show ?thesis by (simp add: loop_body_leaves escapes_ok_body)
qed

subsection \<open>Runs over lines that nothing cuts short\<close>



lemma exchanges_from_Nil [simp]: "exchanges_from d k [] = []"
  by (simp add: exchanges_from_def)

lemma payloads_Nil [simp]: "payloads [] = []"
  by (simp add: payloads_def)




subsection \<open>Runs over any input\<close>

lemma loop_Line_cases:
  obtains (stop) "loop d k (Line L # rest) =
        (fst (loop_body d k L), escapes (d k (bridge_request (strip L))))"
      "strip L \<noteq> []" "escapes (d k (bridge_request (strip L))) \<noteq> None"
  | (skip) "loop d k (Line L # rest) = loop d k rest" "strip L = []"
      "fst (loop_body d k L) = []"
  | (go) "loop d k (Line L # rest) =
        (fst (loop_body d k L) @ fst (loop d (Suc k) rest), snd (loop d (Suc k) rest))"
      "strip L \<noteq> []" "escapes (d k (bridge_request (strip L))) = None"
proof (cases "strip L = []")
  case True
  then have "loop_body d k L = ([], None, k)" by (rule loop_body_blank)
  then show ?thesis using skip True by (cases "loop d k rest") simp
next
  case False
  from loop_body_nonblank [OF False, of d k]
  obtain es where es: "loop_body d k L = (es, escapes (d k (bridge_request (strip L))), Suc k)"
    by blast
  show ?thesis
  proof (cases "escapes (d k (bridge_request (strip L))) = None")
    case out: False
    with es have "loop d k (Line L # rest) =
        (fst (loop_body d k L), escapes (d k (bridge_request (strip L))))"
      by auto
    then show ?thesis using stop False out by blast
  next
    case ni: True
    with es have "loop_body d k L = (es, None, Suc k)" by simp
    from loop_Line_continue [OF this, of rest] this
    have "loop d k (Line L # rest) =
        (fst (loop_body d k L) @ fst (loop d (Suc k) rest), snd (loop d (Suc k) rest))"
      by simp
    then show ?thesis using go False ni by blast
  qed
qed



lemma main_eq:
  "main d stdin =
     (log (lit ''Starting MCP Stdio-to-HTTP Bridge...'') @ fst (loop d 0 stdin) @
      (if snd (loop d 0 stdin) = Some KeyboardInterrupt
       then log (lit ''Bridge shutting down.'') else []),
      if snd (loop d 0 stdin) = Some KeyboardInterrupt then None else snd (loop d 0 stdin))"
proof (cases "loop d 0 stdin")
  case (Pair es r)
  show ?thesis
  proof (cases r)
    case None
    with Pair show ?thesis by (simp add: main_def)
  next
    case (Some x)
    with Pair show ?thesis by (cases x) (simp_all add: main_def)
  qed
qed

subsection \<open>What reaches the two streams and the service\<close>

lemma loop_body_stderr:
  "w \<in> set (stderr_of (fst (loop_body d k L))) \<Longrightarrow> \<exists>m. w = lit ''BRIDGE-LOG: '' @ m @ nl"
proof (cases rule: loop_body_cases [where line = L and d = d and k = k])
  case blank
  assume "w \<in> set (stderr_of (fst (loop_body d k L)))"
  with blank show ?thesis by (simp add: loop_body_blank)
next
  case (ok B)
  assume "w \<in> set (stderr_of (fst (loop_body d k L)))"
  with ok show ?thesis by (simp add: loop_body_200)
next
  case (status s B)
  assume "w \<in> set (stderr_of (fst (loop_body d k L)))"
  with status show ?thesis by (auto simp: loop_body_status)
next
  case (transport e)
  assume "w \<in> set (stderr_of (fst (loop_body d k L)))"
  with transport show ?thesis by (auto simp: loop_body_transport)
next
  case leaves
  assume "w \<in> set (stderr_of (fst (loop_body d k L)))"
  with leaves show ?thesis by (simp add: loop_body_leaves)
qed

lemma loop_stderr:
  "w \<in> set (stderr_of (fst (loop d k stdin))) \<Longrightarrow> \<exists>m. w = lit ''BRIDGE-LOG: '' @ m @ nl"
proof (induction stdin arbitrary: k)
  case Nil
  then show ?case by simp
next
  case (Cons r rest)
  show ?case
  proof (cases r)
    case Interrupted
    with Cons.prems show ?thesis by simp
  next
    case (Read_error c)
    with Cons.prems show ?thesis by simp
  next
    case (Line L)
    show ?thesis
    proof (cases rule: loop_Line_cases [where d = d and k = k and L = L and rest = rest])
      case stop
      with Cons.prems Line show ?thesis by (simp add: loop_body_stderr del: loop.simps)
    next
      case skip
      with Cons.prems Line Cons.IH show ?thesis by (simp del: loop.simps)
    next
      case go
      with Cons.prems Line Cons.IH [of "Suc k"] loop_body_stderr [of w d k L]
      show ?thesis by (auto simp del: loop.simps)
    qed
  qed
qed

lemma loop_body_stdout:
  "w \<in> set (stdout_of (fst (loop_body d k L))) \<Longrightarrow>
   \<exists>B. w = B @ nl \<and> Http_reply (Response 200 B) \<in> set (fst (loop_body d k L))"
proof (cases rule: loop_body_cases [where line = L and d = d and k = k])
  case blank
  assume "w \<in> set (stdout_of (fst (loop_body d k L)))"
  with blank show ?thesis by (simp add: loop_body_blank)
next
  case (ok B)
  assume "w \<in> set (stdout_of (fst (loop_body d k L)))"
  with ok show ?thesis by (simp add: loop_body_200)
next
  case (status s B)
  assume "w \<in> set (stdout_of (fst (loop_body d k L)))"
  with status show ?thesis by (simp add: loop_body_status)
next
  case (transport e)
  assume "w \<in> set (stdout_of (fst (loop_body d k L)))"
  with transport show ?thesis by (simp add: loop_body_transport)
next
  case leaves
  assume "w \<in> set (stdout_of (fst (loop_body d k L)))"
  with leaves show ?thesis by (simp add: loop_body_leaves)
qed

lemma loop_stdout:
  "w \<in> set (stdout_of (fst (loop d k stdin))) \<Longrightarrow>
   \<exists>B. w = B @ nl \<and> Http_reply (Response 200 B) \<in> set (fst (loop d k stdin))"
proof (induction stdin arbitrary: k)
  case Nil
  then show ?case by simp
next
  case (Cons r rest)
  show ?case
  proof (cases r)
    case Interrupted
    with Cons.prems show ?thesis by simp
  next
    case (Read_error c)
    with Cons.prems show ?thesis by simp
  next
    case (Line L)
    show ?thesis
    proof (cases rule: loop_Line_cases [where d = d and k = k and L = L and rest = rest])
      case stop
      with Cons.prems Line loop_body_stdout [of w d k L] show ?thesis
        by (simp del: loop.simps)
    next
      case skip
      with Cons.prems Line Cons.IH show ?thesis by (simp del: loop.simps)
    next
      case go
      with Cons.prems Line Cons.IH [of "Suc k"] loop_body_stdout [of w d k L]
      show ?thesis by (auto simp del: loop.simps)
    qed
  qed
qed

lemma loop_requests:
  "r \<in> set (requests_of (fst (loop d k stdin))) \<Longrightarrow> \<exists>p. r = bridge_request p"
proof (induction stdin arbitrary: k)
  case Nil
  then show ?case by simp
next
  case (Cons x rest)
  show ?case
  proof (cases x)
    case Interrupted
    with Cons.prems show ?thesis by simp
  next
    case (Read_error c)
    with Cons.prems show ?thesis by simp
  next
    case (Line L)
    show ?thesis
    proof (cases rule: loop_Line_cases [where d = d and k = k and L = L and rest = rest])
      case stop
      with Cons.prems Line loop_body_nonblank [of L d k] show ?thesis
        by (auto simp del: loop.simps)
    next
      case skip
      with Cons.prems Line Cons.IH show ?thesis by (simp del: loop.simps)
    next
      case go
      with Cons.prems Line Cons.IH [of "Suc k"] loop_body_nonblank [of L d k]
      show ?thesis by (auto simp del: loop.simps)
    qed
  qed
qed

subsection \<open>How the loop ends\<close>





subsection \<open>Services that give the same replies\<close>

lemma loop_body_outcome:
  "loop_body d k L = loop_body (answers (d k (bridge_request (strip L)))) k L"
  by (simp add: loop_body_def requests_post_eq Let_def answers_def)

lemma loop_body_cong:
  assumes "d1 k (bridge_request (strip L)) = d2 k (bridge_request (strip L))"
  shows "loop_body d1 k L = loop_body d2 k L"
proof -
  have "loop_body d1 k L = loop_body (answers (d1 k (bridge_request (strip L)))) k L"
    by (rule loop_body_outcome)
  also have "\<dots> = loop_body (answers (d2 k (bridge_request (strip L)))) k L"
    by (simp only: assms)
  also have "\<dots> = loop_body d2 k L"
    by (rule loop_body_outcome [symmetric])
  finally show ?thesis .
qed

lemma loop_body_replies:
  "replies_of (fst (loop_body d k L)) =
     (if strip L = [] then [] else [d k (bridge_request (strip L))])"
  using loop_body_nonblank [of L d k] by (auto simp: loop_body_blank)

lemma loop_same_replies:
  "replies_of (fst (loop d1 k stdin)) = replies_of (fst (loop d2 k stdin)) \<Longrightarrow>
   loop d1 k stdin = loop d2 k stdin"
proof (induction stdin arbitrary: k)
  case Nil
  then show ?case by simp
next
  case (Cons x rest)
  show ?case
  proof (cases x)
    case Interrupted
    then show ?thesis by simp
  next
    case (Read_error c)
    then show ?thesis by simp
  next
    case (Line L)
    show ?thesis
    proof (cases "strip L = []")
      case True
      then have "loop d1 k (Line L # rest) = loop d1 k rest"
        "loop d2 k (Line L # rest) = loop d2 k rest"
        by (simp_all add: loop_body_blank)
      with Cons Line show ?thesis by (simp del: loop.simps)
    next
      case False
      let ?r = "bridge_request (strip L)"
      have hd1: "replies_of (fst (loop d1 k (Line L # rest))) \<noteq> [] \<and>
          hd (replies_of (fst (loop d1 k (Line L # rest)))) = d1 k ?r"
        using False
        by (cases rule: loop_Line_cases [where d = d1 and k = k and L = L and rest = rest])
           (simp_all add: loop_body_replies del: loop.simps)
      have hd2: "replies_of (fst (loop d2 k (Line L # rest))) \<noteq> [] \<and>
          hd (replies_of (fst (loop d2 k (Line L # rest)))) = d2 k ?r"
        using False
        by (cases rule: loop_Line_cases [where d = d2 and k = k and L = L and rest = rest])
           (simp_all add: loop_body_replies del: loop.simps)
      from hd1 hd2 Cons.prems Line have same: "d1 k ?r = d2 k ?r" by (simp del: loop.simps)
      then have body: "loop_body d1 k L = loop_body d2 k L" by (rule loop_body_cong)
      show ?thesis
      proof (cases rule: loop_Line_cases [where d = d1 and k = k and L = L and rest = rest])
        case stop
        then have "loop d2 k (Line L # rest) =
            (fst (loop_body d2 k L), escapes (d2 k (bridge_request (strip L))))"
          using same False
          by (cases rule: loop_Line_cases [where d = d2 and k = k and L = L and rest = rest])
             (simp_all del: loop.simps)
        with stop body same Line show ?thesis by (simp del: loop.simps)
      next
        case skip
        with False show ?thesis by simp
      next
        case go
        then have go2: "loop d2 k (Line L # rest) =
            (fst (loop_body d2 k L) @ fst (loop d2 (Suc k) rest), snd (loop d2 (Suc k) rest))"
          using same False
          by (cases rule: loop_Line_cases [where d = d2 and k = k and L = L and rest = rest])
             (simp_all del: loop.simps)
        from Cons.prems Line go(1) go2 body
        have "replies_of (fst (loop d1 (Suc k) rest)) = replies_of (fst (loop d2 (Suc k) rest))"
          by (simp del: loop.simps)
        from Cons.IH [OF this] go(1) go2 body Line show ?thesis
          by (simp del: loop.simps)
      qed
    qed
  qed
qed

lemma main_replies: "replies_of (fst (main d stdin)) = replies_of (fst (loop d 0 stdin))"
  by (simp add: main_eq)

section \<open>The claims of the specification\<close>

text \<open>
  C1, as stated, fails: the request body is not the input line. The line \<open>" ping\n"\<close> is
  not blank, and the one request sent for it has the body \<open>"ping"\<close>, which is neither
  the line as read nor the line without its terminator.
\<close>

theorem post_body_is_not_the_line:
  "\<not> blank (lit '' ping'' @ nl) \<and>
   map data (requests_of (fst (main (answers (Response 200 (lit ''pong'')))
                                   [Line (lit '' ping'' @ nl)]))) = [lit ''ping''] \<and>
   lit ''ping'' \<noteq> lit '' ping'' @ nl \<and> lit ''ping'' \<noteq> lit '' ping''"
  by (simp add: blank_def lit_def nl_def isspace_def main_def loop_body_def strip_def
      requests_post_def answers_def log_def Let_def)

text \<open>
  C1, amended. For every non-blank input line \<open>L\<close> the iteration sends exactly one
  request, and its body is \<open>L\<close> with the surrounding whitespace removed.
\<close>

theorem post_body_is_stripped_line:
  assumes "\<not> blank L"
  shows "requests_of (fst (loop_body d k L)) = [bridge_request (strip L)] \<and>
         map data (requests_of (fst (loop_body d k L))) = [strip L]"
proof -
  from assms have nb: "strip L \<noteq> []" by (simp add: strip_Nil_iff)
  have "requests_of (fst (loop_body d k L)) = [bridge_request (strip L)]"
  proof (cases rule: loop_body_cases [where line = L and d = d and k = k])
    case blank
    with nb show ?thesis by simp
  next
    case (ok B)
    then show ?thesis by (simp add: loop_body_200)
  next
    case (status s B)
    then show ?thesis by (simp add: loop_body_status)
  next
    case (transport e)
    then show ?thesis by (simp add: loop_body_transport)
  next
    case leaves
    then show ?thesis by (simp add: loop_body_leaves)
  qed
  then show ?thesis by (simp add: bridge_request_def)
qed

theorem post_body_is_stripped_line_witness:
  "\<not> blank (lit '' ping'' @ nl) \<and>
   map data (requests_of (fst (loop_body (answers (Response 200 (lit ''pong''))) 0 (lit '' ping'' @ nl))))
     = [lit ''ping'']"
proof -
  have h: "\<not> blank (lit '' ping'' @ nl)"
    by (simp add: blank_def lit_def nl_def isspace_def)
  have s: "strip (lit '' ping'' @ nl) = lit ''ping''"
    by (simp add: strip_def lit_def nl_def isspace_def)
  from post_body_is_stripped_line [OF h, of "answers (Response 200 (lit ''pong''))" 0]
  show ?thesis using h s by (simp add: bridge_request_def)
qed

text \<open>
  C2, as stated, fails: a diagnostic line is written for an exchange answered with status
  200. For the line \<open>"ping\n"\<close> answered by \<open>200 "pong"\<close>, standard error receives the
  line that announces the request.
\<close>

theorem ok_reply_has_a_diagnostic:
  "\<not> blank (lit ''ping'' @ nl) \<and>
   answers (Response 200 (lit ''pong'')) 0 (bridge_request (strip (lit ''ping'' @ nl))) =
     Response 200 (lit ''pong'') \<and>
   stderr_of (fst (loop_body (answers (Response 200 (lit ''pong''))) 0 (lit ''ping'' @ nl))) =
     [lit ''BRIDGE-LOG: Received Request: ping...'' @ nl] \<and>
   stderr_of (fst (loop_body (answers (Response 200 (lit ''pong''))) 0 (lit ''ping'' @ nl))) \<noteq> []"
  by (simp add: blank_def lit_def nl_def isspace_def loop_body_def strip_def
      requests_post_def answers_def log_def Let_def)

text \<open>
  C2, amended. When the service answers the request of a non-blank line with status 200
  and body \<open>B\<close>, the iteration writes \<open>B\<close> and a newline to standard output, once, and
  flushes it; the only diagnostic line of the iteration is the announcement of the
  request, written before the request is sent, and nothing is written to standard error
  after the reply.
\<close>

theorem ok_reply_is_relayed:
  assumes "\<not> blank L" and "d k (bridge_request (strip L)) = Response 200 B"
  shows "fst (loop_body d k L) =
           log (lit ''Received Request: '' @ take 100 (strip L) @ lit ''...'') @
           [Http_request (bridge_request (strip L)), Http_reply (Response 200 B),
            Stdout_write (B @ nl), Stdout_flush] \<and>
         filter on_stdout (fst (loop_body d k L)) = [Stdout_write (B @ nl), Stdout_flush] \<and>
         stdout_of (fst (loop_body d k L)) = [B @ nl] \<and>
         stderr_of (fst (loop_body d k L)) =
           [lit ''BRIDGE-LOG: Received Request: '' @ take 100 (strip L) @ lit ''...'' @ nl]"
proof -
  from assms(1) have nb: "strip L \<noteq> []" by (simp add: strip_Nil_iff)
  note eq = loop_body_200 [where d = d, OF nb assms(2)]
  show ?thesis by (simp add: eq lit_def)
qed

theorem ok_reply_is_relayed_witness:
  "\<not> blank (lit ''ping'' @ nl) \<and>
   stdout_of (fst (loop_body (answers (Response 200 (lit ''pong''))) 0 (lit ''ping'' @ nl))) =
     [lit ''pong'' @ nl] \<and>
   stderr_of (fst (loop_body (answers (Response 200 (lit ''pong''))) 0 (lit ''ping'' @ nl))) =
     [lit ''BRIDGE-LOG: Received Request: ping...'' @ nl]"
proof -
  have h: "\<not> blank (lit ''ping'' @ nl)"
    by (simp add: blank_def lit_def nl_def isspace_def)
  have s: "strip (lit ''ping'' @ nl) = lit ''ping''"
    by (simp add: strip_def lit_def nl_def isspace_def)
  have a: "answers (Response 200 (lit ''pong'')) 0 (bridge_request (strip (lit ''ping'' @ nl))) =
     Response 200 (lit ''pong'')"
    by (simp add: answers_def)
  from ok_reply_is_relayed [where d = "answers (Response 200 (lit ''pong''))", OF h a]
  show ?thesis using h by (simp add: lit_def nl_def strip_def isspace_def)
qed

text \<open>
  C3, as stated, fails: an exchange answered with another status than 200 leaves two
  diagnostic lines, not one. For the line \<open>"ping\n"\<close> answered by \<open>500 "error"\<close>,
  standard error receives the announcement of the request and then the error line.
\<close>

theorem error_status_has_two_diagnostics:
  "\<not> blank (lit ''ping'' @ nl) \<and>
   answers (Response 500 (lit ''error'')) 0 (bridge_request (strip (lit ''ping'' @ nl))) =
     Response 500 (lit ''error'') \<and>
   stderr_of (fst (loop_body (answers (Response 500 (lit ''error''))) 0 (lit ''ping'' @ nl))) =
     [lit ''BRIDGE-LOG: Received Request: ping...'' @ nl,
      lit ''BRIDGE-LOG: Server Error: 500 - error'' @ nl] \<and>
   length (stderr_of (fst (loop_body (answers (Response 500 (lit ''error''))) 0
                              (lit ''ping'' @ nl)))) \<noteq> 1"
  by (simp add: blank_def lit_def nl_def isspace_def loop_body_def strip_def
      requests_post_def answers_def log_def Let_def str_int_def digits.simps)

text \<open>
  C3, amended. When the service answers the request of a non-blank line with a status
  other than 200, nothing is written to standard output, and the iteration writes two
  diagnostic lines: the announcement of the request, before the request is sent, and
  after the reply exactly one line, which holds the status code in decimal and the body
  of the response.
\<close>

theorem error_status_is_logged:
  assumes "\<not> blank L" and "d k (bridge_request (strip L)) = Response s B" and "s \<noteq> 200"
  shows "fst (loop_body d k L) =
           log (lit ''Received Request: '' @ take 100 (strip L) @ lit ''...'') @
           [Http_request (bridge_request (strip L)), Http_reply (Response s B)] @
           log (lit ''Server Error: '' @ str_int s @ lit '' - '' @ B) \<and>
         stdout_of (fst (loop_body d k L)) = [] \<and>
         filter on_stdout (fst (loop_body d k L)) = [] \<and>
         stderr_of (fst (loop_body d k L)) =
           [lit ''BRIDGE-LOG: Received Request: '' @ take 100 (strip L) @ lit ''...'' @ nl,
            lit ''BRIDGE-LOG: Server Error: '' @ str_int s @ lit '' - '' @ B @ nl]"
proof -
  from assms(1) have nb: "strip L \<noteq> []" by (simp add: strip_Nil_iff)
  note eq = loop_body_status [where d = d, OF nb assms(2,3)]
  show ?thesis by (simp add: eq lit_def)
qed

theorem error_status_is_logged_witness:
  "\<not> blank (lit ''ping'' @ nl) \<and> (500::int) \<noteq> 200 \<and>
   stdout_of (fst (loop_body (answers (Response 500 (lit ''error''))) 0 (lit ''ping'' @ nl))) = [] \<and>
   stderr_of (fst (loop_body (answers (Response 500 (lit ''error''))) 0 (lit ''ping'' @ nl))) =
     [lit ''BRIDGE-LOG: Received Request: ping...'' @ nl,
      lit ''BRIDGE-LOG: Server Error: 500 - error'' @ nl]"
proof -
  have h: "\<not> blank (lit ''ping'' @ nl)"
    by (simp add: blank_def lit_def nl_def isspace_def)
  have a: "answers (Response 500 (lit ''error'')) 0 (bridge_request (strip (lit ''ping'' @ nl))) =
     Response 500 (lit ''error'')"
    by (simp add: answers_def)
  have n: "(500::int) \<noteq> 200" by simp
  from error_status_is_logged [where d = "answers (Response 500 (lit ''error''))", OF h a n]
  show ?thesis using h
    by (simp add: lit_def nl_def strip_def isspace_def str_int_def digits.simps)
qed

text \<open>
  C4, as stated, fails: a request that fails in transport leaves two diagnostic lines,
  not one. For the line \<open>"ping\n"\<close> and a refused connection, standard error receives
  the announcement of the request and then the error line.
\<close>

theorem transport_failure_has_two_diagnostics:
  "\<not> blank (lit ''ping'' @ nl) \<and>
   answers (Raise (RequestException (lit ''Connection refused''))) 0
     (bridge_request (strip (lit ''ping'' @ nl))) =
     Raise (RequestException (lit ''Connection refused'')) \<and>
   stderr_of (fst (loop_body (answers (Raise (RequestException (lit ''Connection refused''))))
                    0 (lit ''ping'' @ nl))) =
     [lit ''BRIDGE-LOG: Received Request: ping...'' @ nl,
      lit ''BRIDGE-LOG: HTTP Connection Error: Connection refused'' @ nl] \<and>
   length (stderr_of (fst (loop_body
       (answers (Raise (RequestException (lit ''Connection refused'')))) 0
       (lit ''ping'' @ nl)))) \<noteq> 1"
  by (simp add: blank_def lit_def nl_def isspace_def loop_body_def strip_def
      requests_post_def answers_def log_def Let_def)

text \<open>
  C4, amended. When the request of a non-blank line raises a \<open>RequestException\<close>,
  nothing is written to standard output, and the iteration writes two diagnostic lines:
  the announcement of the request, before the request is sent, and after the failure
  exactly one line, which holds the text of the exception. The loop then goes on with the
  next input line.
\<close>

theorem transport_failure_is_logged:
  assumes "\<not> blank L" and "d k (bridge_request (strip L)) = Raise (RequestException e)"
  shows "fst (loop_body d k L) =
           log (lit ''Received Request: '' @ take 100 (strip L) @ lit ''...'') @
           [Http_request (bridge_request (strip L)), Http_reply (Raise (RequestException e))] @
           log (lit ''HTTP Connection Error: '' @ e) \<and>
         stdout_of (fst (loop_body d k L)) = [] \<and>
         filter on_stdout (fst (loop_body d k L)) = [] \<and>
         stderr_of (fst (loop_body d k L)) =
           [lit ''BRIDGE-LOG: Received Request: '' @ take 100 (strip L) @ lit ''...'' @ nl,
            lit ''BRIDGE-LOG: HTTP Connection Error: '' @ e @ nl] \<and>
         loop d k (Line L # rest) =
           (fst (loop_body d k L) @ fst (loop d (Suc k) rest), snd (loop d (Suc k) rest))"
proof -
  from assms(1) have nb: "strip L \<noteq> []" by (simp add: strip_Nil_iff)
  note eq = loop_body_transport [where d = d, OF nb assms(2)]
  note l = loop_Line_continue [OF eq]
  show ?thesis by (simp add: eq l lit_def del: loop.simps)
qed

theorem transport_failure_is_logged_witness:
  "\<not> blank (lit ''ping'' @ nl) \<and>
   stdout_of (fst (loop_body (answers (Raise (RequestException (lit ''Connection refused''))))
                    0 (lit ''ping'' @ nl))) = [] \<and>
   stderr_of (fst (loop_body (answers (Raise (RequestException (lit ''Connection refused''))))
                    0 (lit ''ping'' @ nl))) =
     [lit ''BRIDGE-LOG: Received Request: ping...'' @ nl,
      lit ''BRIDGE-LOG: HTTP Connection Error: Connection refused'' @ nl] \<and>
   snd (loop (answers (Raise (RequestException (lit ''Connection refused'')))) 0
          [Line (lit ''ping'' @ nl), Line (lit ''pong'' @ nl)]) = None \<and>
   map data (requests_of (fst (loop (answers (Raise (RequestException (lit ''Connection refused'')))) 0
          [Line (lit ''ping'' @ nl), Line (lit ''pong'' @ nl)]))) = [lit ''ping'', lit ''pong'']"
proof -
  let ?d = "answers (Raise (RequestException (lit ''Connection refused'')))"
  have h: "\<not> blank (lit ''ping'' @ nl)"
    by (simp add: blank_def lit_def nl_def isspace_def)
  have a: "?d 0 (bridge_request (strip (lit ''ping'' @ nl))) =
     Raise (RequestException (lit ''Connection refused''))"
    by (simp add: answers_def)
  have r: "loop ?d (Suc 0) [Line (lit ''pong'' @ nl)] =
     (log (lit ''Received Request: pong...'') @
      [Http_request (bridge_request (lit ''pong'')),
       Http_reply (Raise (RequestException (lit ''Connection refused'')))] @
      log (lit ''HTTP Connection Error: Connection refused''), None)"
    by (simp add: loop_body_def strip_def isspace_def lit_def nl_def requests_post_def
        answers_def Let_def bridge_request_def)
  have s: "strip (lit ''ping'' @ nl) = lit ''ping''"
    by (simp add: strip_def lit_def nl_def isspace_def)
  from transport_failure_is_logged [where d = ?d, OF h a, of "[Line (lit ''pong'' @ nl)]"]
  show ?thesis using h
    by (simp add: r s bridge_request_def del: loop.simps) (simp add: lit_def)
qed

text \<open>
  C5. A line that is blank or holds only whitespace is skipped: the iteration sends no
  request, writes nothing to standard output and nothing to standard error, and the loop
  goes on with the rest of the input as if the line had not been there.
\<close>

theorem blank_line_is_skipped:
  assumes "blank line"
  shows "loop_body d k line = ([], None, k) \<and>
         requests_of (fst (loop_body d k line)) = [] \<and>
         stdout_of (fst (loop_body d k line)) = [] \<and>
         stderr_of (fst (loop_body d k line)) = [] \<and>
         loop d k (Line line # rest) = loop d k rest"
proof -
  from assms have "strip line = []" by (simp add: strip_Nil_iff)
  then have "loop_body d k line = ([], None, k)" by (rule loop_body_blank)
  then show ?thesis by (cases "loop d k rest") simp
qed

theorem blank_line_is_skipped_witness:
  "blank (lit ''  '' @ nl) \<and>
   loop_body (answers (Response 200 (lit ''pong''))) 0 (lit ''  '' @ nl) = ([], None, 0) \<and>
   main (answers (Response 200 (lit ''pong''))) [Line (lit ''  '' @ nl)] =
     (log (lit ''Starting MCP Stdio-to-HTTP Bridge...''), None)"
proof -
  have h: "blank (lit ''  '' @ nl)"
    by (simp add: blank_def lit_def nl_def isspace_def)
  from blank_line_is_skipped [OF h, of "answers (Response 200 (lit ''pong''))" 0 "[]"]
  show ?thesis using h by (simp add: main_def)
qed




text \<open>
  C7. In every run, whatever the input and the service, each write to standard error is
  one diagnostic: the fixed tag \<open>BRIDGE-LOG: \<close>, the message, and a newline; and each
  write to standard output is the body of a reply with status 200 received in that run,
  followed by a newline. No diagnostic is written to standard output.
\<close>

theorem diagnostics_stay_on_stderr:
  "(\<forall>w\<in>set (stderr_of (fst (main d stdin))). \<exists>m. w = lit ''BRIDGE-LOG: '' @ m @ nl) \<and>
   (\<forall>w\<in>set (stdout_of (fst (main d stdin))).
      \<exists>B. w = B @ nl \<and> Http_reply (Response 200 B) \<in> set (fst (main d stdin)))"
proof (intro conjI ballI)
  fix w assume "w \<in> set (stderr_of (fst (main d stdin)))"
  then have "w = lit ''BRIDGE-LOG: '' @ lit ''Starting MCP Stdio-to-HTTP Bridge...'' @ nl \<or>
      w \<in> set (stderr_of (fst (loop d 0 stdin))) \<or>
      w = lit ''BRIDGE-LOG: '' @ lit ''Bridge shutting down.'' @ nl"
    by (auto simp: main_eq split: if_splits)
  then show "\<exists>m. w = lit ''BRIDGE-LOG: '' @ m @ nl"
    using loop_stderr [of w d 0 stdin] by blast
next
  fix w assume "w \<in> set (stdout_of (fst (main d stdin)))"
  then have "w \<in> set (stdout_of (fst (loop d 0 stdin)))"
    by (auto simp: main_eq split: if_splits)
  from loop_stdout [OF this]
  show "\<exists>B. w = B @ nl \<and> Http_reply (Response 200 B) \<in> set (fst (main d stdin))"
    by (auto simp: main_eq)
qed

theorem diagnostics_stay_on_stderr_witness:
  "lit ''BRIDGE-LOG: Server Error: 500 - error'' @ nl \<in>
     set (stderr_of (fst (main
       (scripted [Response 200 (lit ''pong'')] (Response 500 (lit ''error'')))
       [Line (lit ''ping'' @ nl), Line (lit ''ping'' @ nl), Interrupted]))) \<and>
   (\<exists>m. lit ''BRIDGE-LOG: Server Error: 500 - error'' @ nl = lit ''BRIDGE-LOG: '' @ m @ nl) \<and>
   lit ''pong'' @ nl \<in>
     set (stdout_of (fst (main
       (scripted [Response 200 (lit ''pong'')] (Response 500 (lit ''error'')))
       [Line (lit ''ping'' @ nl), Line (lit ''ping'' @ nl), Interrupted]))) \<and>
   (\<exists>B. lit ''pong'' @ nl = B @ nl \<and>
        Http_reply (Response 200 B) \<in> set (fst (main
       (scripted [Response 200 (lit ''pong'')] (Response 500 (lit ''error'')))
       [Line (lit ''ping'' @ nl), Line (lit ''ping'' @ nl), Interrupted])))"
proof -
  let ?d = "scripted [Response 200 (lit ''pong'')] (Response 500 (lit ''error''))"
  let ?in = "[Line (lit ''ping'' @ nl), Line (lit ''ping'' @ nl), Interrupted]"
  have e: "lit ''BRIDGE-LOG: Server Error: 500 - error'' @ nl \<in>
      set (stderr_of (fst (main ?d ?in)))"
    by (simp add: main_def loop_body_def strip_def isspace_def lit_def nl_def
        requests_post_def scripted_def log_def Let_def str_int_def digits.simps)
  have o: "lit ''pong'' @ nl \<in> set (stdout_of (fst (main ?d ?in)))"
    by (simp add: main_def loop_body_def strip_def isspace_def lit_def nl_def
        requests_post_def scripted_def log_def Let_def str_int_def digits.simps)
  from diagnostics_stay_on_stderr [of ?d ?in] e o show ?thesis by blast
qed

text \<open>
  C8. Every request of every run is a POST to the one URL of \<open>HTTP_SERVER_URL\<close>, with
  the single header \<open>Content-Type: application/json\<close> and a timeout of 30 seconds.
\<close>

theorem every_request_is_the_fixed_post:
  "\<forall>r\<in>set (requests_of (fst (main d stdin))).
     meth r = lit ''POST'' \<and>
     url r = HTTP_SERVER_URL \<and>
     url r = lit ''http://localhost:9000/mcp/v1/chinook/'' \<and>
     headers r = [(lit ''Content-Type'', lit ''application/json'')] \<and>
     timeout r = 30"
proof
  fix r assume "r \<in> set (requests_of (fst (main d stdin)))"
  then have "r \<in> set (requests_of (fst (loop d 0 stdin)))"
    by (auto simp: main_eq split: if_splits)
  then obtain p where "r = bridge_request p" using loop_requests by blast
  then show "meth r = lit ''POST'' \<and> url r = HTTP_SERVER_URL \<and>
     url r = lit ''http://localhost:9000/mcp/v1/chinook/'' \<and>
     headers r = [(lit ''Content-Type'', lit ''application/json'')] \<and> timeout r = 30"
    by (simp add: bridge_request_def HTTP_SERVER_URL_def)
qed

theorem every_request_is_the_fixed_post_witness:
  "bridge_request (lit ''ping'') \<in> set (requests_of (fst (main
       (answers (Response 200 (lit ''pong''))) [Line (lit ''ping'' @ nl)]))) \<and>
   url (bridge_request (lit ''ping'')) = lit ''http://localhost:9000/mcp/v1/chinook/'' \<and>
   timeout (bridge_request (lit ''ping'')) = 30"
proof -
  let ?d = "answers (Response 200 (lit ''pong''))"
  have m: "bridge_request (lit ''ping'') \<in> set (requests_of (fst (main ?d [Line (lit ''ping'' @ nl)])))"
    by (simp add: main_def loop_body_def strip_def isspace_def lit_def nl_def
        requests_post_def answers_def log_def Let_def bridge_request_def HTTP_SERVER_URL_def)
  from every_request_is_the_fixed_post [of ?d "[Line (lit ''ping'' @ nl)]"] m
  show ?thesis by blast
qed




text \<open>
  C10. A run is determined by its input and by the outcomes of the requests it sends:
  two services that give the same sequence of outcomes to the requests of a run over the
  same input lead to the same standard output, the same standard error and the same
  exit status, whatever else distinguishes them.
\<close>

theorem same_outcomes_same_streams:
  assumes "replies_of (fst (main d1 stdin)) = replies_of (fst (main d2 stdin))"
  shows "stdout_of (fst (main d1 stdin)) = stdout_of (fst (main d2 stdin)) \<and>
         stderr_of (fst (main d1 stdin)) = stderr_of (fst (main d2 stdin)) \<and>
         script d1 stdin = script d2 stdin"
proof -
  from assms have "replies_of (fst (loop d1 0 stdin)) = replies_of (fst (loop d2 0 stdin))"
    by (simp only: main_replies)
  then have "loop d1 0 stdin = loop d2 0 stdin"
    by (rule loop_same_replies)
  then have "main d1 stdin = main d2 stdin" by (simp add: main_def)
  then show ?thesis by (simp add: script_def)
qed

theorem same_outcomes_same_streams_witness:
  "replies_of (fst (main (answers (Response 200 (lit ''pong''))) [Line (lit ''ping'' @ nl)])) =
   replies_of (fst (main (scripted [Response 200 (lit ''pong'')] (Response 500 (lit ''error'')))
                      [Line (lit ''ping'' @ nl)])) \<and>
   answers (Response 200 (lit ''pong'')) 1 (bridge_request (lit ''ping'')) \<noteq>
   scripted [Response 200 (lit ''pong'')] (Response 500 (lit ''error'')) 1
     (bridge_request (lit ''ping'')) \<and>
   stdout_of (fst (main (answers (Response 200 (lit ''pong''))) [Line (lit ''ping'' @ nl)])) =
   stdout_of (fst (main (scripted [Response 200 (lit ''pong'')] (Response 500 (lit ''error'')))
                     [Line (lit ''ping'' @ nl)])) \<and>
   stderr_of (fst (main (answers (Response 200 (lit ''pong''))) [Line (lit ''ping'' @ nl)])) =
   stderr_of (fst (main (scripted [Response 200 (lit ''pong'')] (Response 500 (lit ''error'')))
                     [Line (lit ''ping'' @ nl)]))"
proof -
  let ?d1 = "answers (Response 200 (lit ''pong''))"
  let ?d2 = "scripted [Response 200 (lit ''pong'')] (Response 500 (lit ''error''))"
  let ?in = "[Line (lit ''ping'' @ nl)]"
  have h: "replies_of (fst (main ?d1 ?in)) = replies_of (fst (main ?d2 ?in))"
    by (simp add: main_def loop_body_def strip_def isspace_def lit_def nl_def
        requests_post_def answers_def scripted_def log_def Let_def)
  have n: "?d1 1 (bridge_request (lit ''ping'')) \<noteq> ?d2 1 (bridge_request (lit ''ping''))"
    by (simp add: answers_def scripted_def)
  from same_outcomes_same_streams [OF h] h n show ?thesis by blast
qed

end
